theory Spec2Isabelle
  imports Main
begin

section \<open>store/uiReducer.ts\<close>

record UIState =
  disableButtons :: bool

datatype UIAction = TOGGLE_DISABLE | SET_DISABLE bool

definition initialUIState :: UIState where
  "initialUIState = \<lparr>disableButtons = False\<rparr>"

text \<open>The \<^verbatim>\<open>default\<close> branch of the switch is excluded by the type \<^verbatim>\<open>UIAction\<close>.\<close>

fun uiReducer :: "UIState \<Rightarrow> UIAction \<Rightarrow> UIState" where
  "uiReducer state TOGGLE_DISABLE = state\<lparr>disableButtons := \<not> disableButtons state\<rparr>"
| "uiReducer state (SET_DISABLE payload) = state\<lparr>disableButtons := payload\<rparr>"

section \<open>services/graphql.ts: callAnilistStudio\<close>

text \<open>
  JavaScript values as far as \<^verbatim>\<open>callAnilistStudio\<close> inspects them: the value that
  \<^verbatim>\<open>res.json()\<close> yields, and \<^verbatim>\<open>undefined\<close> for the result of reading a property that
  is not there. Numbers are kept as integers: the code only tests them for truthiness.
\<close>

datatype js_value =
    JUndefined
  | JNull
  | JBool bool
  | JNum int
  | JStr string
  | JArr "js_value list"
  | JObj "(string \<times> js_value) list"

datatype js_error = NetworkError | SyntaxError | TypeError

text \<open>JavaScript truthiness, as \<^verbatim>\<open>if (v)\<close>, \<^verbatim>\<open>v && w\<close> and \<^verbatim>\<open>!!v\<close> decide it.\<close>

fun truthy :: "js_value \<Rightarrow> bool" where
  "truthy JUndefined = False"
| "truthy JNull = False"
| "truthy (JBool b) = b"
| "truthy (JNum n) = (n \<noteq> 0)"
| "truthy (JStr s) = (s \<noteq> [])"
| "truthy (JArr xs) = True"
| "truthy (JObj kvs) = True"

text \<open>
  Property read \<^verbatim>\<open>v.k\<close> for the keys the function uses (\<^verbatim>\<open>errors\<close>, \<^verbatim>\<open>data\<close>,
  \<^verbatim>\<open>Studio\<close>): a TypeError on \<^verbatim>\<open>null\<close> and \<^verbatim>\<open>undefined\<close>, the last binding of the key
  in an object (as \<^verbatim>\<open>JSON.parse\<close> keeps it), \<^verbatim>\<open>undefined\<close> everywhere else.
\<close>

fun get_prop :: "js_value \<Rightarrow> string \<Rightarrow> js_error + js_value" where
  "get_prop JUndefined k = Inl TypeError"
| "get_prop JNull k = Inl TypeError"
| "get_prop (JObj kvs) k = Inr (case map_of (rev kvs) k of None \<Rightarrow> JUndefined | Some v \<Rightarrow> v)"
| "get_prop (JBool b) k = Inr JUndefined"
| "get_prop (JNum n) k = Inr JUndefined"
| "get_prop (JStr s) k = Inr JUndefined"
| "get_prop (JArr xs) k = Inr JUndefined"

text \<open>
  What the network gives back: \<^verbatim>\<open>fetch\<close> rejects, or yields a response with its
  \<^verbatim>\<open>ok\<close> flag and a body on which \<^verbatim>\<open>res.json()\<close> rejects or yields a value.
\<close>

datatype body_result = JsonRejects | JsonParsed js_value

datatype fetch_result = FetchRejects | Response bool body_result

text \<open>How a promise settles.\<close>

datatype promise_outcome = Resolved bool | Rejected js_error

datatype log_entry =
    NetworkOrParsingError
  | RequestFailed
  | CountUnsuccessful
  | CountFailed

text \<open>The body of the \<^verbatim>\<open>try\<close> block: \<open>Inl\<close> is a throw, \<open>Inr\<close> a \<^verbatim>\<open>return\<close>.\<close>

definition callAnilistStudio_try :: "fetch_result \<Rightarrow> js_error + bool" where
  "callAnilistStudio_try r =
     (case r of
        FetchRejects \<Rightarrow> Inl NetworkError
      | Response ok body \<Rightarrow>
          if \<not> ok then Inr False
          else (case body of
                  JsonRejects \<Rightarrow> Inl SyntaxError
                | JsonParsed json \<Rightarrow>
                    (case get_prop json ''errors'' of
                       Inl e \<Rightarrow> Inl e
                     | Inr errors \<Rightarrow>
                         if truthy errors then Inr False
                         else (case get_prop json ''data'' of
                                 Inl e \<Rightarrow> Inl e
                               | Inr data \<Rightarrow>
                                   if \<not> truthy data then Inr False
                                   else (case get_prop data ''Studio'' of
                                           Inl e \<Rightarrow> Inl e
                                         | Inr studio \<Rightarrow> Inr (truthy studio))))))"

text \<open>
  The whole function: the \<^verbatim>\<open>catch\<close> clause logs with \<^verbatim>\<open>console.error\<close> and returns
  \<^verbatim>\<open>false\<close>. The result is how the returned promise settles, and what was logged.
\<close>

definition callAnilistStudio :: "fetch_result \<Rightarrow> promise_outcome \<times> log_entry list" where
  "callAnilistStudio r =
     (case callAnilistStudio_try r of
        Inl err \<Rightarrow> (Resolved False, [NetworkOrParsingError])
      | Inr b \<Rightarrow> (Resolved b, []))"

section \<open>App.tsx: the component as a state machine\<close>

text \<open>
  A request started by the toggle effect: the closure of its handlers holds the variable
  \<^verbatim>\<open>mounted\<close> and the value of \<^verbatim>\<open>uiState.disableButtons\<close> of the render that ran the effect.
\<close>

record toggle_request =
  t_id :: nat
  t_mounted :: bool
  t_captured :: bool

text \<open>A request started by the timer callback of the counter effect.\<close>

record count_request =
  c_id :: nat
  c_mounted :: bool
  c_captured :: int

text \<open>A timer of \<^verbatim>\<open>window.setTimeout\<close>: its id, when it is due, and the \<^verbatim>\<open>count\<close> of the
  render that scheduled it.\<close>

record timer =
  tm_id :: nat
  tm_due :: nat
  tm_count :: int

datatype attempt = ToggleAttempt bool | CountAttempt int

text \<open>
  The hooks of \<^verbatim>\<open>App\<close> (\<open>count\<close>, \<open>uiState\<close>, \<open>isSaving\<close>, the three refs), the cleanup
  functions React holds for the two effects, and the environment: the pending timers, the
  requests in flight, the clock, the calls of \<^verbatim>\<open>callAnilistStudio\<close> made so far and the
  console. \<open>alive\<close> says that the component is in the tree; React drops a state update of
  a component that is not.
\<close>

record app =
  alive :: bool
  count :: int
  uiState :: UIState
  isSaving :: bool
  prevDisableRef :: bool
  prevCountRef :: int
  countTimeoutRef :: "nat option"
  toggle_cleanup :: "nat option"
  count_cleanup :: bool
  timers :: "timer list"
  next_timer :: nat
  toggle_inflight :: "toggle_request list"
  count_inflight :: "count_request list"
  next_req :: nat
  now :: nat
  attempts :: "attempt list"
  console :: "log_entry list"

definition setIsSaving :: "bool \<Rightarrow> app \<Rightarrow> app" where
  "setIsSaving v s = (if alive s then s\<lparr>isSaving := v\<rparr> else s)"

definition uiDispatch :: "UIAction \<Rightarrow> app \<Rightarrow> app" where
  "uiDispatch a s = (if alive s then s\<lparr>uiState := uiReducer (uiState s) a\<rparr> else s)"

definition setCount :: "(int \<Rightarrow> int) \<Rightarrow> app \<Rightarrow> app" where
  "setCount f s = (if alive s then s\<lparr>count := f (count s)\<rparr> else s)"

definition clearTimeout :: "nat \<Rightarrow> app \<Rightarrow> app" where
  "clearTimeout i s = s\<lparr>timers := filter (\<lambda>x. tm_id x \<noteq> i) (timers s)\<rparr>"

subsection \<open>The effect on \<^verbatim>\<open>uiState.disableButtons\<close>\<close>

text \<open>
  The body of the effect. On the guarded path it returns no cleanup; otherwise it sets
  \<^verbatim>\<open>isSaving\<close>, calls \<^verbatim>\<open>callAnilistStudio\<close> and returns the cleanup that clears the
  \<^verbatim>\<open>mounted\<close> of this run.
\<close>

definition toggle_effect :: "app \<Rightarrow> app" where
  "toggle_effect s =
     (if prevDisableRef s = disableButtons (uiState s)
      then s\<lparr>prevDisableRef := disableButtons (uiState s), toggle_cleanup := None\<rparr>
      else (let s1 = setIsSaving True s
            in s1\<lparr>attempts := attempts s1 @ [ToggleAttempt (disableButtons (uiState s))],
                  toggle_inflight := toggle_inflight s1 @
                    [\<lparr>t_id = next_req s1, t_mounted = True,
                      t_captured = disableButtons (uiState s)\<rparr>],
                  next_req := Suc (next_req s1),
                  toggle_cleanup := Some (next_req s1)\<rparr>))"

definition toggle_effect_cleanup :: "app \<Rightarrow> app" where
  "toggle_effect_cleanup s =
     (case toggle_cleanup s of
        None \<Rightarrow> s
      | Some i \<Rightarrow>
          s\<lparr>toggle_inflight :=
               map (\<lambda>q. if t_id q = i then q\<lparr>t_mounted := False\<rparr> else q) (toggle_inflight s),
            toggle_cleanup := None\<rparr>)"

subsection \<open>The effect on \<^verbatim>\<open>count\<close>\<close>

text \<open>
  The body of the effect and its cleanup. \<^verbatim>\<open>if (countTimeoutRef.current)\<close> holds of a
  timer id that is neither \<^verbatim>\<open>null\<close> nor 0. The guarded path of the body returns no
  cleanup.
\<close>

definition debounce_delay :: nat where
  "debounce_delay = 300"

definition count_effect :: "app \<Rightarrow> app" where
  "count_effect s =
     (if prevCountRef s = count s
      then s\<lparr>prevCountRef := count s, count_cleanup := False\<rparr>
      else (let s1 = (case countTimeoutRef s of
                        None \<Rightarrow> s
                      | Some i \<Rightarrow> if i \<noteq> 0 then clearTimeout i s else s)
            in s1\<lparr>timers := timers s1 @
                    [\<lparr>tm_id = next_timer s1, tm_due = now s1 + debounce_delay,
                      tm_count = count s\<rparr>],
                  next_timer := Suc (next_timer s1),
                  countTimeoutRef := Some (next_timer s1),
                  count_cleanup := True\<rparr>))"

definition count_effect_cleanup :: "app \<Rightarrow> app" where
  "count_effect_cleanup s =
     (if count_cleanup s
      then (case countTimeoutRef s of
              None \<Rightarrow> s
            | Some i \<Rightarrow> if i \<noteq> 0 then (clearTimeout i s)\<lparr>countTimeoutRef := None\<rparr> else s)
           \<lparr>count_cleanup := False\<rparr>
      else s)"

text \<open>
  The callback given to \<^verbatim>\<open>setTimeout\<close>. Its \<^verbatim>\<open>mounted\<close> starts true; the function it
  returns is the only code that would clear it, and \<^verbatim>\<open>setTimeout\<close> discards what its
  callback returns.
\<close>

definition count_timer_callback :: "int \<Rightarrow> app \<Rightarrow> app" where
  "count_timer_callback c s =
     (let s1 = setIsSaving True s
      in s1\<lparr>attempts := attempts s1 @ [CountAttempt c],
            count_inflight := count_inflight s1 @
              [\<lparr>c_id = next_req s1, c_mounted = True, c_captured = c\<rparr>],
            next_req := Suc (next_req s1)\<rparr>)"

subsection \<open>Rendering\<close>

text \<open>
  What React does after a state update, given the dependencies of the last render: for
  each effect whose dependency changed, the cleanup of its last run, then its body.
  Nothing is rendered once the component is unmounted.
\<close>

definition rerender :: "bool \<Rightarrow> int \<Rightarrow> app \<Rightarrow> app" where
  "rerender old_disable old_count s =
     (if \<not> alive s then s
      else (let dc = (disableButtons (uiState s) \<noteq> old_disable);
                cc = (count s \<noteq> old_count);
                s1 = (if dc then toggle_effect_cleanup s else s);
                s2 = (if cc then count_effect_cleanup s1 else s1);
                s3 = (if dc then toggle_effect s2 else s2)
            in if cc then count_effect s3 else s3))"

text \<open>The first render: the hooks take their initial values, then both effects run.\<close>

definition App_initial :: app where
  "App_initial =
     \<lparr>alive = True, count = 0, uiState = initialUIState, isSaving = False,
      prevDisableRef = disableButtons initialUIState, prevCountRef = 0,
      countTimeoutRef = None, toggle_cleanup = None, count_cleanup = False,
      timers = [], next_timer = 1, toggle_inflight = [], count_inflight = [],
      next_req = 0, now = 0, attempts = [], console = []\<rparr>"

definition mount :: "app \<Rightarrow> app" where
  "mount s = count_effect (toggle_effect s)"

definition init :: app where
  "init = mount App_initial"

definition unmount :: "app \<Rightarrow> app" where
  "unmount s =
     (if alive s then (count_effect_cleanup (toggle_effect_cleanup s))\<lparr>alive := False\<rparr> else s)"

subsection \<open>The handlers of the promises\<close>

text \<open>
  \<^verbatim>\<open>.then(...).catch(...).finally(...)\<close> of the toggle effect, run on the request \<open>q\<close>
  when its promise settles. The updates they issue are applied by the render that
  follows the last handler (React 18 batches updates made outside its own event handlers).
\<close>

definition toggle_handlers :: "toggle_request \<Rightarrow> promise_outcome \<Rightarrow> app \<Rightarrow> app" where
  "toggle_handlers q outcome s =
     (let s1 = (case outcome of
                  Resolved success \<Rightarrow>
                    if \<not> t_mounted q then s
                    else if \<not> success then uiDispatch (SET_DISABLE (prevDisableRef s)) s
                    else s
                | Rejected err \<Rightarrow>
                    uiDispatch (SET_DISABLE (prevDisableRef s))
                      (s\<lparr>console := console s @ [RequestFailed]\<rparr>));
          s2 = (if t_mounted q then setIsSaving False s1 else s1)
      in s2\<lparr>prevDisableRef := t_captured q\<rparr>)"

definition count_handlers :: "count_request \<Rightarrow> promise_outcome \<Rightarrow> app \<Rightarrow> app" where
  "count_handlers q outcome s =
     (let s1 = (case outcome of
                  Resolved success \<Rightarrow>
                    if \<not> c_mounted q then s
                    else if \<not> success then s\<lparr>console := console s @ [CountUnsuccessful]\<rparr>
                    else s
                | Rejected err \<Rightarrow> s\<lparr>console := console s @ [CountFailed]\<rparr>);
          s2 = (if c_mounted q then setIsSaving False s1 else s1)
      in s2\<lparr>prevCountRef := c_captured q\<rparr>)"

text \<open>The promise of the request with id \<open>i\<close> settles; an id not in flight changes nothing.\<close>

definition settle_toggle :: "nat \<Rightarrow> promise_outcome \<Rightarrow> app \<Rightarrow> app" where
  "settle_toggle i outcome s =
     (case find (\<lambda>q. t_id q = i) (toggle_inflight s) of
        None \<Rightarrow> s
      | Some q \<Rightarrow>
          rerender (disableButtons (uiState s)) (count s)
            (toggle_handlers q outcome
               (s\<lparr>toggle_inflight := filter (\<lambda>x. t_id x \<noteq> i) (toggle_inflight s)\<rparr>)))"

definition settle_count :: "nat \<Rightarrow> promise_outcome \<Rightarrow> app \<Rightarrow> app" where
  "settle_count i outcome s =
     (case find (\<lambda>q. c_id q = i) (count_inflight s) of
        None \<Rightarrow> s
      | Some q \<Rightarrow>
          rerender (disableButtons (uiState s)) (count s)
            (count_handlers q outcome
               (s\<lparr>count_inflight := filter (\<lambda>x. c_id x \<noteq> i) (count_inflight s)\<rparr>)))"

subsection \<open>Events\<close>

text \<open>
  Time passes by \<open>d\<close>: the timers that fall due run their callbacks, in the order they
  were set.
\<close>

definition advance :: "nat \<Rightarrow> app \<Rightarrow> app" where
  "advance d s =
     (let t = now s + d;
          due = filter (\<lambda>x. tm_due x \<le> t) (timers s);
          s1 = s\<lparr>now := t, timers := filter (\<lambda>x. \<not> tm_due x \<le> t) (timers s)\<rparr>
      in fold (\<lambda>x. count_timer_callback (tm_count x)) due s1)"

definition handleIncrement :: "app \<Rightarrow> app" where
  "handleIncrement s = setCount (\<lambda>prev. prev + 1) s"

definition handleReset :: "app \<Rightarrow> app" where
  "handleReset s = setCount (\<lambda>prev. 0) s"

definition toggleDisabled :: "app \<Rightarrow> app" where
  "toggleDisabled s = uiDispatch TOGGLE_DISABLE s"

text \<open>
  The four buttons (a disabled button delivers no click), the clock, the network
  answering a request, and the component leaving the tree.
\<close>

datatype event =
    ClickIncrement
  | ClickReset
  | ClickToggle
  | ClickCountAnimes
  | Advance nat
  | ToggleSettles nat fetch_result
  | CountSettles nat fetch_result
  | Unmount

definition after_handler :: "(app \<Rightarrow> app) \<Rightarrow> app \<Rightarrow> app" where
  "after_handler h s = rerender (disableButtons (uiState s)) (count s) (h s)"

definition log_all :: "log_entry list \<Rightarrow> app \<Rightarrow> app" where
  "log_all ls s = s\<lparr>console := console s @ ls\<rparr>"

fun step :: "event \<Rightarrow> app \<Rightarrow> app" where
  "step ClickIncrement s =
     (if alive s \<and> \<not> disableButtons (uiState s) then after_handler handleIncrement s else s)"
| "step ClickReset s =
     (if alive s \<and> \<not> disableButtons (uiState s) then after_handler handleReset s else s)"
| "step ClickToggle s = (if alive s then after_handler toggleDisabled s else s)"
| "step ClickCountAnimes s =
     (if alive s \<and> \<not> disableButtons (uiState s) then after_handler toggleDisabled s else s)"
| "step (Advance d) s = advance d s"
| "step (ToggleSettles i r) s =
     (case callAnilistStudio r of (outcome, ls) \<Rightarrow> settle_toggle i outcome (log_all ls s))"
| "step (CountSettles i r) s =
     (case callAnilistStudio r of (outcome, ls) \<Rightarrow> settle_count i outcome (log_all ls s))"
| "step Unmount s = unmount s"

fun run :: "app \<Rightarrow> event list \<Rightarrow> app" where
  "run s [] = s"
| "run s (e # es) = run (step e s) es"

section \<open>Vocabulary of the properties\<close>

text \<open>An object that has the key \<open>k\<close>, whatever the value bound to it.\<close>

definition has_field :: "js_value \<Rightarrow> string \<Rightarrow> bool" where
  "has_field v k = (case v of JObj kvs \<Rightarrow> map_of kvs k \<noteq> None | _ \<Rightarrow> False)"

text \<open>Two bodies the endpoint may send: the studio asked for, and the same with an
  \<^verbatim>\<open>errors\<close> key bound to \<^verbatim>\<open>null\<close>.\<close>

definition studio_response :: js_value where
  "studio_response =
     JObj [(''data'', JObj [(''Studio'', JObj [(''id'', JNum 10),
             (''isAnimationStudio'', JBool True), (''isFavourite'', JBool False),
             (''name'', JStr ''Studio'')])])]"

definition null_errors_response :: js_value where
  "null_errors_response =
     JObj [(''errors'', JNull), (''data'', JObj [(''Studio'', JObj [(''id'', JNum 10)])])]"

text \<open>
  The invariant of the debounce timer: no timer is pending, or exactly one is, the
  component is in the tree, the cleanup of the counter effect is registered,
  \<^verbatim>\<open>countTimeoutRef\<close> holds the id of that timer, and the timer was set for the current
  \<open>count\<close>.
\<close>

definition timer_inv :: "app \<Rightarrow> bool" where
  "timer_inv s \<longleftrightarrow>
     0 < next_timer s \<and>
     (timers s = [] \<or>
      (alive s \<and> count_cleanup s \<and>
       (\<exists>t. timers s = [t] \<and> tm_id t \<noteq> 0 \<and> tm_id t < next_timer s
            \<and> countTimeoutRef s = Some (tm_id t) \<and> tm_count t = count s)))"

text \<open>
  A run of counter clicks: each pair is the time that passes before a click, and the
  click. \<open>rapid\<close>: every click is on the increment or the reset button and comes less
  than the debounce delay after the one before.
\<close>

fun debounce_events :: "(nat \<times> event) list \<Rightarrow> event list" where
  "debounce_events [] = []"
| "debounce_events ((d, e) # cs) = Advance d # e # debounce_events cs"

definition counter_click :: "event \<Rightarrow> bool" where
  "counter_click e \<longleftrightarrow> e = ClickIncrement \<or> e = ClickReset"

definition rapid :: "(nat \<times> event) list \<Rightarrow> bool" where
  "rapid cs \<longleftrightarrow> list_all (\<lambda>(d, e). d < debounce_delay \<and> counter_click e) cs"

text \<open>
  The state of the debounce while such a run goes on from the first render: nothing was
  attempted yet, \<^verbatim>\<open>prevCountRef\<close> still holds 0, and a timer is pending, due in \<open>k\<close>,
  exactly when \<open>count\<close> is not 0.
\<close>

definition waiting :: "nat \<Rightarrow> app \<Rightarrow> bool" where
  "waiting k s \<longleftrightarrow>
     alive s \<and> \<not> disableButtons (uiState s) \<and> prevCountRef s = 0 \<and> attempts s = []
     \<and> 0 < next_timer s
     \<and> (if count s = 0 then timers s = []
         else count_cleanup s \<and>
              (\<exists>i. i \<noteq> 0 \<and> countTimeoutRef s = Some i \<and>
                   timers s = [\<lparr>tm_id = i, tm_due = now s + k, tm_count = count s\<rparr>]))"

text \<open>
  The invariant of the toggle effect: a request in flight whose \<^verbatim>\<open>mounted\<close> is still
  true is the one the registered cleanup will clear.
\<close>

definition only_current_mounted :: "app \<Rightarrow> bool" where
  "only_current_mounted s \<longleftrightarrow>
     (\<forall>q\<in>set (toggle_inflight s). t_mounted q \<longrightarrow> toggle_cleanup s = Some (t_id q))"

section \<open>The reducer\<close>

text \<open>
  C10. \<open>uiReducer\<close> is a total function of the state and the action. Applying
  \<open>TOGGLE_DISABLE\<close> twice gives back the state it started from, applying
  \<open>SET_DISABLE p\<close> twice is the same as applying it once, and after \<open>SET_DISABLE p\<close>
  the flag \<open>disableButtons\<close> is \<open>p\<close>, from every state.
\<close>

theorem uiReducer_toggle_involution_set_idempotent:
  "uiReducer (uiReducer state TOGGLE_DISABLE) TOGGLE_DISABLE = state
   \<and> disableButtons (uiReducer (uiReducer state TOGGLE_DISABLE) TOGGLE_DISABLE)
       = disableButtons state
   \<and> uiReducer (uiReducer state (SET_DISABLE p)) (SET_DISABLE p)
       = uiReducer state (SET_DISABLE p)
   \<and> disableButtons (uiReducer state (SET_DISABLE p)) = p"
  by simp

theorem uiReducer_toggle_involution_set_idempotent_witness:
  "uiReducer (uiReducer initialUIState TOGGLE_DISABLE) TOGGLE_DISABLE = initialUIState
   \<and> disableButtons (uiReducer initialUIState (SET_DISABLE True)) = True"
  using uiReducer_toggle_involution_set_idempotent [of initialUIState True] by simp


section \<open>callAnilistStudio\<close>

lemma callAnilistStudio_try_true_iff:
  "callAnilistStudio_try r = Inr True \<longleftrightarrow>
     (\<exists>json errors data studio. r = Response True (JsonParsed json)
        \<and> get_prop json ''errors'' = Inr errors \<and> \<not> truthy errors
        \<and> get_prop json ''data'' = Inr data \<and> truthy data
        \<and> get_prop data ''Studio'' = Inr studio \<and> truthy studio)"
  by (auto simp: callAnilistStudio_try_def
           split: fetch_result.splits body_result.splits sum.splits)

lemma get_prop_throws:
  "get_prop v k = Inl e \<longleftrightarrow> (v = JNull \<or> v = JUndefined) \<and> e = TypeError"
  by (cases v) auto

lemma get_prop_falsy_throws: "get_prop v k = Inl e \<Longrightarrow> \<not> truthy v"
  by (cases v) auto

lemma callAnilistStudio_try_throws_iff:
  "(\<exists>e. callAnilistStudio_try r = Inl e) \<longleftrightarrow>
     r = FetchRejects \<or> r = Response True JsonRejects
     \<or> r = Response True (JsonParsed JNull) \<or> r = Response True (JsonParsed JUndefined)"
  by (auto simp: callAnilistStudio_try_def get_prop_throws
           split: fetch_result.splits body_result.splits sum.splits
           dest: get_prop_falsy_throws)

lemma callAnilistStudio_outcome:
  "fst (callAnilistStudio r) = Resolved (callAnilistStudio_try r = Inr True)"
  by (cases "callAnilistStudio_try r") (auto simp: callAnilistStudio_def)

lemma callAnilistStudio_logs:
  "snd (callAnilistStudio r) =
     (if \<exists>e. callAnilistStudio_try r = Inl e then [NetworkOrParsingError] else [])"
  by (cases "callAnilistStudio_try r") (auto simp: callAnilistStudio_def)

text \<open>
  C5, as the code has it. The promise of \<open>callAnilistStudio\<close> resolves to \<^verbatim>\<open>true\<close>
  exactly when the response is ok, its body parses, \<^verbatim>\<open>json.errors\<close> is absent or falsy,
  and \<^verbatim>\<open>json.data\<close> and \<^verbatim>\<open>json.data.Studio\<close> are truthy; in every other case it
  resolves to \<^verbatim>\<open>false\<close>. The \<^verbatim>\<open>catch\<close> clause runs, and logs one error, exactly when
  \<^verbatim>\<open>fetch\<close> rejects, \<^verbatim>\<open>res.json()\<close> rejects, or the body is \<^verbatim>\<open>null\<close>; a response that is
  not ok, a truthy \<^verbatim>\<open>errors\<close> and a missing payload give \<^verbatim>\<open>false\<close> by a plain return,
  with nothing logged.
\<close>

theorem callAnilistStudio_boolean:
  "(fst (callAnilistStudio r) = Resolved True \<longleftrightarrow>
      (\<exists>json errors data studio. r = Response True (JsonParsed json)
        \<and> get_prop json ''errors'' = Inr errors \<and> \<not> truthy errors
        \<and> get_prop json ''data'' = Inr data \<and> truthy data
        \<and> get_prop data ''Studio'' = Inr studio \<and> truthy studio))
   \<and> (fst (callAnilistStudio r) = Resolved True \<or> fst (callAnilistStudio r) = Resolved False)
   \<and> (snd (callAnilistStudio r) = [NetworkOrParsingError] \<longleftrightarrow>
        r = FetchRejects \<or> r = Response True JsonRejects
        \<or> r = Response True (JsonParsed JNull) \<or> r = Response True (JsonParsed JUndefined))
   \<and> (snd (callAnilistStudio r) = [NetworkOrParsingError] \<or> snd (callAnilistStudio r) = [])"
  unfolding callAnilistStudio_outcome callAnilistStudio_logs
    callAnilistStudio_try_throws_iff callAnilistStudio_try_true_iff [symmetric]
  by auto

theorem callAnilistStudio_boolean_witness:
  "fst (callAnilistStudio (Response True (JsonParsed studio_response))) = Resolved True
   \<and> snd (callAnilistStudio (Response True (JsonParsed studio_response))) = []"
  using callAnilistStudio_boolean [of "Response True (JsonParsed studio_response)"]
  by (auto simp: studio_response_def)

text \<open>
  C5 as it is stated fails: a body with an \<^verbatim>\<open>errors\<close> field whose value is \<^verbatim>\<open>null\<close>
  has an errors field, and the function resolves to \<^verbatim>\<open>true\<close> on it.
\<close>

theorem callAnilistStudio_errors_field_counterexample:
  "\<not> (fst (callAnilistStudio (Response True (JsonParsed null_errors_response))) = Resolved True
       \<longrightarrow> \<not> has_field null_errors_response ''errors'')"
  by (simp add: callAnilistStudio_def callAnilistStudio_try_def null_errors_response_def
        has_field_def)

section \<open>The first render\<close>

text \<open>
  C7. An effect that runs while its previous-value ref equals the watched value issues
  no notification attempt and sets no timer: the toggle effect leaves the attempts, the
  requests in flight, the timers and \<open>isSaving\<close> as they are, and so does the counter
  effect with the attempts, the timers and \<^verbatim>\<open>countTimeoutRef\<close>. At the first render both
  refs equal the watched values, so after mounting no attempt has been made, no timer is
  pending and no request is in flight.
\<close>

theorem initial_mount_skip:
  "(prevDisableRef s = disableButtons (uiState s) \<longrightarrow>
      attempts (toggle_effect s) = attempts s
      \<and> toggle_inflight (toggle_effect s) = toggle_inflight s
      \<and> timers (toggle_effect s) = timers s \<and> isSaving (toggle_effect s) = isSaving s)
   \<and> (prevCountRef s = count s \<longrightarrow>
      attempts (count_effect s) = attempts s \<and> timers (count_effect s) = timers s
      \<and> count_inflight (count_effect s) = count_inflight s
      \<and> countTimeoutRef (count_effect s) = countTimeoutRef s)
   \<and> prevDisableRef App_initial = disableButtons (uiState App_initial)
   \<and> prevCountRef App_initial = count App_initial
   \<and> attempts init = [] \<and> timers init = [] \<and> toggle_inflight init = []
   \<and> count_inflight init = [] \<and> countTimeoutRef init = None \<and> \<not> isSaving init"
  by (simp add: toggle_effect_def count_effect_def init_def mount_def App_initial_def)

theorem initial_mount_skip_witness:
  "attempts (toggle_effect App_initial) = [] \<and> timers (count_effect App_initial) = []
   \<and> attempts init = []"
  using initial_mount_skip [of App_initial]
  by (simp add: App_initial_def)

section \<open>The handlers of the counter path\<close>

lemma count_handlers_frame:
  "count (count_handlers q outcome s) = count s"
  "uiState (count_handlers q outcome s) = uiState s"
  "timers (count_handlers q outcome s) = timers s"
  "attempts (count_handlers q outcome s) = attempts s"
  "alive (count_handlers q outcome s) = alive s"
  "toggle_inflight (count_handlers q outcome s) = toggle_inflight s"
  "count_inflight (count_handlers q outcome s) = count_inflight s"
  "isSaving (count_handlers q outcome s) = (isSaving s \<and> \<not> (c_mounted q \<and> alive s))"
  "console (count_handlers q outcome s) = console s @
     (case outcome of
        Resolved success \<Rightarrow> if c_mounted q \<and> \<not> success then [CountUnsuccessful] else []
      | Rejected err \<Rightarrow> [CountFailed])"
  by (auto simp: count_handlers_def setIsSaving_def Let_def split: promise_outcome.splits)

lemma rerender_same: "rerender (disableButtons (uiState s)) (count s) s = s"
  by (simp add: rerender_def Let_def)

lemma settle_count_eq:
  "settle_count i outcome s =
     (case find (\<lambda>q. c_id q = i) (count_inflight s) of
        None \<Rightarrow> s
      | Some q \<Rightarrow> count_handlers q outcome
               (s\<lparr>count_inflight := filter (\<lambda>x. c_id x \<noteq> i) (count_inflight s)\<rparr>))"
proof (cases "find (\<lambda>q. c_id q = i) (count_inflight s)")
  case None
  then show ?thesis by (simp add: settle_count_def)
next
  case (Some q)
  let ?s' = "count_handlers q outcome
               (s\<lparr>count_inflight := filter (\<lambda>x. c_id x \<noteq> i) (count_inflight s)\<rparr>)"
  have "rerender (disableButtons (uiState ?s')) (count ?s') ?s' = ?s'"
    by (rule rerender_same)
  then show ?thesis using Some by (simp add: settle_count_def count_handlers_frame)
qed

text \<open>
  C8. When the promise of a counter request settles, however it settles, the counter,
  the \<open>disableButtons\<close> flag, the timers and the attempts made are what they were, and
  \<open>isSaving\<close> can only have been cleared. A failure leaves one line on the console: the
  warning when the promise resolves to \<^verbatim>\<open>false\<close>, the error when it rejects.
\<close>

theorem counter_failure_only_logged:
  "count (settle_count i outcome s) = count s
   \<and> uiState (settle_count i outcome s) = uiState s
   \<and> timers (settle_count i outcome s) = timers s
   \<and> attempts (settle_count i outcome s) = attempts s
   \<and> toggle_inflight (settle_count i outcome s) = toggle_inflight s
   \<and> (isSaving (settle_count i outcome s) \<longrightarrow> isSaving s)
   \<and> (\<forall>q. find (\<lambda>q. c_id q = i) (count_inflight s) = Some q \<longrightarrow>
        console (settle_count i (Resolved False) s)
          = console s @ (if c_mounted q then [CountUnsuccessful] else [])
        \<and> console (settle_count i (Rejected err) s) = console s @ [CountFailed])"
  by (auto simp: settle_count_eq count_handlers_frame split: option.splits)

theorem counter_failure_only_logged_witness:
  "count (settle_count 0 (Resolved False) (run init [ClickIncrement, Advance 300])) = 1
   \<and> \<not> disableButtons
         (uiState (settle_count 0 (Resolved False) (run init [ClickIncrement, Advance 300])))
   \<and> console (settle_count 0 (Resolved False) (run init [ClickIncrement, Advance 300]))
       = [CountUnsuccessful]
   \<and> console (settle_count 0 (Rejected NetworkError) (run init [ClickIncrement, Advance 300]))
       = [CountFailed]"
proof -
  let ?s = "run init [ClickIncrement, Advance 300]"
  have f: "find (\<lambda>q. c_id q = 0) (count_inflight ?s)
             = Some \<lparr>c_id = 0, c_mounted = True, c_captured = 1\<rparr>"
    by code_simp
  have c: "count ?s = 1" "console ?s = []" "\<not> disableButtons (uiState ?s)"
    by code_simp+
  show ?thesis
    using counter_failure_only_logged [of 0 "Resolved False" ?s NetworkError] f c
    by simp
qed


section \<open>The debounce timer\<close>


lemma fold_callback_fields:
  "timers (fold (\<lambda>x. count_timer_callback (tm_count x)) xs s) = timers s"
  "next_timer (fold (\<lambda>x. count_timer_callback (tm_count x)) xs s) = next_timer s"
  "alive (fold (\<lambda>x. count_timer_callback (tm_count x)) xs s) = alive s"
  "count_cleanup (fold (\<lambda>x. count_timer_callback (tm_count x)) xs s) = count_cleanup s"
  "countTimeoutRef (fold (\<lambda>x. count_timer_callback (tm_count x)) xs s) = countTimeoutRef s"
  "count (fold (\<lambda>x. count_timer_callback (tm_count x)) xs s) = count s"
  by (induction xs arbitrary: s; simp add: count_timer_callback_def setIsSaving_def Let_def)+

lemma timer_inv_advance: "timer_inv s \<Longrightarrow> timer_inv (advance d s)"
  by (auto simp: timer_inv_def advance_def Let_def fold_callback_fields)

lemma timer_inv_toggle_effect: "timer_inv s \<Longrightarrow> timer_inv (toggle_effect s)"
  by (auto simp: timer_inv_def toggle_effect_def setIsSaving_def Let_def)

lemma timer_inv_toggle_effect_cleanup: "timer_inv s \<Longrightarrow> timer_inv (toggle_effect_cleanup s)"
  by (auto simp: timer_inv_def toggle_effect_cleanup_def split: option.splits)

lemma timer_inv_count_rerun:
  assumes "timer_inv (s\<lparr>count := c0\<rparr>)" "alive s"
  shows "timer_inv (count_effect (count_effect_cleanup s))"
  using assms
  by (auto simp: timer_inv_def count_effect_def count_effect_cleanup_def clearTimeout_def Let_def split: option.splits)



lemma timer_inv_uiState [simp]: "timer_inv (s\<lparr>uiState := u\<rparr>) = timer_inv s"
  and timer_inv_isSaving [simp]: "timer_inv (s\<lparr>isSaving := v\<rparr>) = timer_inv s"
  and timer_inv_console [simp]: "timer_inv (s\<lparr>console := l\<rparr>) = timer_inv s"
  and timer_inv_prevDisableRef [simp]: "timer_inv (s\<lparr>prevDisableRef := b\<rparr>) = timer_inv s"
  and timer_inv_prevCountRef [simp]: "timer_inv (s\<lparr>prevCountRef := c\<rparr>) = timer_inv s"
  and timer_inv_toggle_inflight [simp]: "timer_inv (s\<lparr>toggle_inflight := tq\<rparr>) = timer_inv s"
  and timer_inv_count_inflight [simp]: "timer_inv (s\<lparr>count_inflight := cq\<rparr>) = timer_inv s"
  by (simp_all add: timer_inv_def)

lemma timer_inv_same_count: "timer_inv s \<Longrightarrow> count s = oc \<Longrightarrow> timer_inv (s\<lparr>count := oc\<rparr>)"
  by auto

lemma timer_pre_toggle_effect_cleanup:
  "timer_inv (s\<lparr>count := oc\<rparr>) \<Longrightarrow> timer_inv ((toggle_effect_cleanup s)\<lparr>count := oc\<rparr>)"
  by (auto simp: timer_inv_def toggle_effect_cleanup_def split: option.splits)

lemma timer_pre_toggle_effect:
  "timer_inv (s\<lparr>count := oc\<rparr>) \<Longrightarrow> timer_inv ((toggle_effect s)\<lparr>count := oc\<rparr>)"
  by (auto simp: timer_inv_def toggle_effect_def setIsSaving_def Let_def)

lemma count_effect_cleanup_clears:
  "timer_inv (s\<lparr>count := oc\<rparr>) \<Longrightarrow>
     timers (count_effect_cleanup s) = [] \<and> 0 < next_timer (count_effect_cleanup s)
     \<and> alive (count_effect_cleanup s) = alive s"
  by (auto simp: timer_inv_def count_effect_cleanup_def clearTimeout_def split: option.splits)

lemma toggle_effect_timer_fields:
  "timers (toggle_effect s) = timers s" "next_timer (toggle_effect s) = next_timer s"
  "alive (toggle_effect s) = alive s"
  by (simp_all add: toggle_effect_def setIsSaving_def Let_def)

lemma toggle_effect_cleanup_timer_fields:
  "timers (toggle_effect_cleanup s) = timers s" "next_timer (toggle_effect_cleanup s) = next_timer s"
  "alive (toggle_effect_cleanup s) = alive s"
  by (simp_all add: toggle_effect_cleanup_def split: option.splits)

lemma count_effect_establishes:
  "timers s = [] \<Longrightarrow> 0 < next_timer s \<Longrightarrow> alive s \<Longrightarrow> timer_inv (count_effect s)"
  by (auto simp: timer_inv_def count_effect_def clearTimeout_def Let_def split: option.splits)

lemma timer_inv_rerender:
  assumes "timer_inv (s\<lparr>count := oc\<rparr>)"
  shows "timer_inv (rerender ob oc s)"
proof (cases "alive s")
  case False
  with assms have "timers s = []" by (auto simp: timer_inv_def)
  with assms False show ?thesis by (simp add: rerender_def timer_inv_def)
next
  case True
  show ?thesis
  proof (cases "count s = oc")
    case same: True
    then have "s\<lparr>count := oc\<rparr> = s" by auto
    with assms have "timer_inv s" by simp
    with True same show ?thesis
      by (simp add: rerender_def Let_def timer_inv_toggle_effect timer_inv_toggle_effect_cleanup)
  next
    case diff: False
    let ?s1 = "if disableButtons (uiState s) \<noteq> ob then toggle_effect_cleanup s else s"
    let ?s2 = "count_effect_cleanup ?s1"
    let ?s3 = "if disableButtons (uiState s) \<noteq> ob then toggle_effect ?s2 else ?s2"
    have 1: "timer_inv (?s1\<lparr>count := oc\<rparr>)" "alive ?s1"
      using assms True by (simp_all add: timer_pre_toggle_effect_cleanup toggle_effect_cleanup_timer_fields)
    from count_effect_cleanup_clears[OF 1(1)] 1(2)
    have 2: "timers ?s2 = []" "0 < next_timer ?s2" "alive ?s2" by simp_all
    then have 3: "timers ?s3 = []" "0 < next_timer ?s3" "alive ?s3"
      by (auto simp: toggle_effect_timer_fields split: if_splits)
    have "rerender ob oc s = count_effect ?s3"
      using True diff by (simp add: rerender_def Let_def toggle_effect_cleanup_def split: option.splits)
    with count_effect_establishes[OF 3] show ?thesis by simp
  qed
qed

lemma timer_inv_toggle_handlers: "timer_inv s \<Longrightarrow> timer_inv (toggle_handlers q outcome s)"
  by (auto simp: toggle_handlers_def uiDispatch_def setIsSaving_def Let_def split: promise_outcome.splits)

lemma timer_inv_count_handlers: "timer_inv s \<Longrightarrow> timer_inv (count_handlers q outcome s)"
  by (auto simp: count_handlers_def setIsSaving_def Let_def split: promise_outcome.splits)

lemma toggle_handlers_count [simp]: "count (toggle_handlers q outcome s) = count s"
  by (auto simp: toggle_handlers_def uiDispatch_def setIsSaving_def Let_def split: promise_outcome.splits)

lemma count_handlers_count [simp]: "count (count_handlers q outcome s) = count s"
  by (auto simp: count_handlers_def setIsSaving_def Let_def split: promise_outcome.splits)

lemma timer_inv_settle_toggle: "timer_inv s \<Longrightarrow> timer_inv (settle_toggle i outcome s)"
  unfolding settle_toggle_def
  by (auto split: option.splits intro!: timer_inv_rerender timer_inv_same_count timer_inv_toggle_handlers)

lemma timer_inv_settle_count: "timer_inv s \<Longrightarrow> timer_inv (settle_count i outcome s)"
  unfolding settle_count_def
  by (auto split: option.splits intro!: timer_inv_rerender timer_inv_same_count timer_inv_count_handlers)

lemma timer_inv_unmount: "timer_inv s \<Longrightarrow> timer_inv (unmount s)"
proof -
  assume a: "timer_inv s"
  then have "timer_inv ((toggle_effect_cleanup s)\<lparr>count := count s\<rparr>)"
    by (intro timer_pre_toggle_effect_cleanup) auto
  from count_effect_cleanup_clears[OF this] a show ?thesis
    by (auto simp: unmount_def timer_inv_def)
qed

lemma timer_inv_after_setCount: "timer_inv s \<Longrightarrow> timer_inv (after_handler (setCount f) s)"
  unfolding after_handler_def
  by (rule timer_inv_rerender) (auto simp: setCount_def)

lemma timer_inv_after_dispatch: "timer_inv s \<Longrightarrow> timer_inv (after_handler (uiDispatch a) s)"
  unfolding after_handler_def
  by (rule timer_inv_rerender) (auto simp: uiDispatch_def)

lemma timer_inv_log_all [simp]: "timer_inv (log_all ls s) = timer_inv s"
  by (simp add: log_all_def)

lemma handlers_eq:
  "handleIncrement = setCount (\<lambda>prev. prev + 1)"
  "handleReset = setCount (\<lambda>prev. 0)"
  "toggleDisabled = uiDispatch TOGGLE_DISABLE"
  by (auto simp: handleIncrement_def handleReset_def toggleDisabled_def)

lemma timer_inv_step: "timer_inv s \<Longrightarrow> timer_inv (step e s)"
  by (cases e)
     (auto simp: handlers_eq
           intro: timer_inv_after_setCount timer_inv_after_dispatch timer_inv_advance
                  timer_inv_settle_toggle timer_inv_settle_count timer_inv_unmount
           split: prod.splits)

lemma timer_inv_run: "timer_inv s \<Longrightarrow> timer_inv (run s es)"
  by (induction es arbitrary: s) (auto intro: timer_inv_step)

lemma timer_inv_init: "timer_inv init"
  by (simp add: timer_inv_def init_def mount_def App_initial_def toggle_effect_def count_effect_def initialUIState_def)


lemma count_effect_cleanup_fields:
  "next_timer (count_effect_cleanup s) = next_timer s"
  "attempts (count_effect_cleanup s) = attempts s"
  "now (count_effect_cleanup s) = now s"
  "count (count_effect_cleanup s) = count s"
  by (simp_all add: count_effect_cleanup_def clearTimeout_def split: option.splits)

lemma count_effect_cleanup_refs:
  "prevCountRef (count_effect_cleanup s) = prevCountRef s"
  by (simp add: count_effect_cleanup_def clearTimeout_def split: option.splits)

lemma count_effect_from_cleared:
  "timers s = [] \<Longrightarrow>
     attempts (count_effect s) = attempts s \<and>
     timers (count_effect s) =
       (if prevCountRef s = count s then []
        else [\<lparr>tm_id = next_timer s, tm_due = now s + debounce_delay, tm_count = count s\<rparr>])"
  by (auto simp: count_effect_def clearTimeout_def Let_def split: option.splits)

lemma counter_change_replaces_timer:
  assumes inv: "timer_inv s" and a: "alive s" and ch: "f (count s) \<noteq> count s"
  shows "set (timers (after_handler (setCount f) s)) \<inter> set (timers s) = {}
         \<and> attempts (after_handler (setCount f) s) = attempts s
         \<and> timers (after_handler (setCount f) s) =
             (if prevCountRef s = f (count s) then []
              else [\<lparr>tm_id = next_timer s, tm_due = now s + debounce_delay,
                     tm_count = f (count s)\<rparr>])"
proof -
  let ?s0 = "s\<lparr>count := f (count s)\<rparr>"
  let ?c = "count_effect_cleanup ?s0"
  have eq: "after_handler (setCount f) s = count_effect ?c"
    using a ch by (simp add: after_handler_def setCount_def rerender_def Let_def)
  have "timer_inv (?s0\<lparr>count := count s\<rparr>)" using inv by simp
  from count_effect_cleanup_clears[OF this] have cl: "timers ?c = []" by simp
  from count_effect_from_cleared[OF cl]
  have att: "attempts (count_effect ?c) = attempts s"
    and tm: "timers (count_effect ?c) =
      (if prevCountRef s = f (count s) then []
       else [\<lparr>tm_id = next_timer s, tm_due = now s + debounce_delay, tm_count = f (count s)\<rparr>])"
    by (simp_all add: count_effect_cleanup_fields count_effect_cleanup_refs)
  have old: "\<forall>t\<in>set (timers s). tm_id t < next_timer s"
    using inv by (auto simp: timer_inv_def)
  show ?thesis unfolding eq using att tm old by auto
qed

lemma advance_attempts:
  assumes "timer_inv s"
  shows "attempts (advance d s) = attempts s
         \<or> attempts (advance d s) = attempts s @ [CountAttempt (count s)]"
  using assms
  by (auto simp: timer_inv_def advance_def Let_def count_timer_callback_def setIsSaving_def)

lemma timer_inv_facts:
  assumes "timer_inv s"
  shows "length (timers s) \<le> 1"
    and "\<forall>t\<in>set (timers s). tm_count t = count s \<and> countTimeoutRef s = Some (tm_id t)"
  using assms by (auto simp: timer_inv_def)

lemma unmount_clears: "timer_inv s \<Longrightarrow> timers (unmount s) = []"
proof -
  assume a: "timer_inv s"
  then have "timer_inv ((toggle_effect_cleanup s)\<lparr>count := count s\<rparr>)"
    by (intro timer_pre_toggle_effect_cleanup) auto
  from count_effect_cleanup_clears[OF this] a show ?thesis
    by (auto simp: unmount_def timer_inv_def)
qed

text \<open>
  C6, as the code has it. In every state the component can reach, at most one debounce
  timer is pending; a pending timer was set for the current \<open>count\<close>, and
  \<^verbatim>\<open>countTimeoutRef\<close> holds its id. A click that changes the counter makes no attempt
  and leaves none of the timers that were pending: the old timer is cancelled, and it is
  replaced by a new one, due after the debounce delay and set for the new value, unless
  the new value is the one \<^verbatim>\<open>prevCountRef\<close> holds, when no timer is set. Unmounting
  leaves no timer. When time passes, the only attempt that can fire is one for the
  current \<open>count\<close>: a value that was superseded gets none.
\<close>

theorem pending_timer_at_most_one:
  "length (timers (run init es)) \<le> 1
   \<and> (\<forall>t\<in>set (timers (run init es)).
         tm_count t = count (run init es) \<and> countTimeoutRef (run init es) = Some (tm_id t))
   \<and> (\<forall>e\<in>{ClickIncrement, ClickReset}.
         count (step e (run init es)) \<noteq> count (run init es) \<longrightarrow>
           set (timers (step e (run init es))) \<inter> set (timers (run init es)) = {}
           \<and> attempts (step e (run init es)) = attempts (run init es)
           \<and> timers (step e (run init es)) =
               (if prevCountRef (run init es) = count (step e (run init es)) then []
                else [\<lparr>tm_id = next_timer (run init es),
                       tm_due = now (run init es) + debounce_delay,
                       tm_count = count (step e (run init es))\<rparr>]))
   \<and> timers (step Unmount (run init es)) = []
   \<and> (attempts (step (Advance d) (run init es)) = attempts (run init es)
        \<or> attempts (step (Advance d) (run init es))
             = attempts (run init es) @ [CountAttempt (count (run init es))])"
proof -
  let ?s = "run init es"
  have inv: "timer_inv ?s" by (rule timer_inv_run[OF timer_inv_init])
  have click: "set (timers (step e ?s)) \<inter> set (timers ?s) = {}
      \<and> attempts (step e ?s) = attempts ?s
      \<and> timers (step e ?s) =
               (if prevCountRef ?s = count (step e ?s) then []
                else [\<lparr>tm_id = next_timer ?s, tm_due = now ?s + debounce_delay,
                       tm_count = count (step e ?s)\<rparr>])"
    if "e \<in> {ClickIncrement, ClickReset}" "count (step e ?s) \<noteq> count ?s" for e
  proof -
    from that obtain f where f: "step e ?s = after_handler (setCount f) ?s"
      and al: "alive ?s"
      by (cases "alive ?s \<and> \<not> disableButtons (uiState ?s)") (auto simp: handlers_eq)
    have ne: "f (count ?s) \<noteq> count ?s"
    proof
      assume "f (count ?s) = count ?s"
      then have "after_handler (setCount f) ?s = ?s"
        using al by (simp add: after_handler_def setCount_def rerender_def Let_def)
      with f that(2) show False by simp
    qed
    have cnt: "count (after_handler (setCount f) ?s) = f (count ?s)"
      using al ne
      by (simp add: after_handler_def setCount_def rerender_def Let_def count_effect_def
            count_effect_cleanup_fields clearTimeout_def split: option.splits)
    show ?thesis unfolding f cnt
      by (rule counter_change_replaces_timer[of "run init es" f, OF inv al ne])
  qed
  have clicks: "\<forall>e\<in>{ClickIncrement, ClickReset}.
         count (step e ?s) \<noteq> count ?s \<longrightarrow>
           set (timers (step e ?s)) \<inter> set (timers ?s) = {}
           \<and> attempts (step e ?s) = attempts ?s
           \<and> timers (step e ?s) =
               (if prevCountRef ?s = count (step e ?s) then []
                else [\<lparr>tm_id = next_timer ?s, tm_due = now ?s + debounce_delay,
                       tm_count = count (step e ?s)\<rparr>])"
    using click by blast
  have un: "timers (step Unmount ?s) = []"
    using unmount_clears[OF inv] by simp
  have adv: "attempts (step (Advance d) ?s) = attempts ?s
        \<or> attempts (step (Advance d) ?s) = attempts ?s @ [CountAttempt (count ?s)]"
    using advance_attempts[OF inv, of d] by simp
  from timer_inv_facts[OF inv] clicks un adv show ?thesis
    by (intro conjI)
qed

theorem pending_timer_at_most_one_witness:
  "timers (run init [ClickIncrement, Advance 100]) = [\<lparr>tm_id = 1, tm_due = 300, tm_count = 1\<rparr>]
   \<and> timers (run init [ClickIncrement, Advance 100, ClickIncrement])
        = [\<lparr>tm_id = 2, tm_due = 400, tm_count = 2\<rparr>]
   \<and> attempts (run init [ClickIncrement, Advance 100, ClickIncrement]) = []
   \<and> length (timers (run init [ClickIncrement, Advance 100])) \<le> 1"
proof -
  have a: "timers (run init [ClickIncrement, Advance 100])
             = [\<lparr>tm_id = 1, tm_due = 300, tm_count = 1\<rparr>]"
    by code_simp
  have b: "timers (run init [ClickIncrement, Advance 100, ClickIncrement])
        = [\<lparr>tm_id = 2, tm_due = 400, tm_count = 2\<rparr>]" by code_simp
  have c: "attempts (run init [ClickIncrement, Advance 100, ClickIncrement]) = []" by code_simp
  show ?thesis
    using pending_timer_at_most_one [of "[ClickIncrement, Advance 100]" 0] a b c
    by simp
qed

text \<open>
  C6 as it is stated fails where it says that a change replaces the timer: increment,
  then reset within the quiet period. The reset changes the counter and cancels the
  pending timer, and no timer takes its place.
\<close>

theorem pending_timer_not_replaced_counterexample:
  "count (run init [ClickIncrement, Advance 100, ClickReset])
     \<noteq> count (run init [ClickIncrement, Advance 100])
   \<and> timers (run init [ClickIncrement, Advance 100]) \<noteq> []
   \<and> timers (run init [ClickIncrement, Advance 100, ClickReset]) = []"
  by code_simp

section \<open>The promise of callAnilistStudio never rejects\<close>


lemma console_effects:
  "console (toggle_effect s) = console s"
  "console (toggle_effect_cleanup s) = console s"
  "console (count_effect s) = console s"
  "console (count_effect_cleanup s) = console s"
  by (simp_all add: toggle_effect_def toggle_effect_cleanup_def count_effect_def
        count_effect_cleanup_def clearTimeout_def setIsSaving_def Let_def split: option.splits)

lemma console_rerender: "console (rerender ob oc s) = console s"
  by (simp add: rerender_def Let_def console_effects)

lemma console_after_handler:
  "console (after_handler (setCount f) s) = console s"
  "console (after_handler (uiDispatch a) s) = console s"
  by (simp_all add: after_handler_def console_rerender setCount_def uiDispatch_def)

lemma console_fold_callback:
  "console (fold (\<lambda>x. count_timer_callback (tm_count x)) xs s) = console s"
  by (induction xs arbitrary: s) (simp_all add: count_timer_callback_def setIsSaving_def Let_def)

lemma console_advance: "console (advance d s) = console s"
  by (simp add: advance_def Let_def console_fold_callback)

lemma console_unmount: "console (unmount s) = console s"
  by (simp add: unmount_def console_effects)

lemma console_toggle_handlers_resolved:
  "console (toggle_handlers q (Resolved b) s) = console s"
  by (simp add: toggle_handlers_def uiDispatch_def setIsSaving_def Let_def)

lemma console_settle_toggle_resolved:
  "console (settle_toggle i (Resolved b) s) = console s"
  by (simp add: settle_toggle_def console_rerender console_toggle_handlers_resolved
        split: option.splits)

lemma console_settle_count:
  "RequestFailed \<in> set (console (settle_count i outcome s)) \<Longrightarrow> RequestFailed \<in> set (console s)"
  by (auto simp: settle_count_eq count_handlers_frame
           split: option.splits promise_outcome.splits if_splits)

lemma callAnilistStudio_cases:
  obtains b where "callAnilistStudio r = (Resolved b, [])"
  | "callAnilistStudio r = (Resolved False, [NetworkOrParsingError])"
  by (cases "callAnilistStudio_try r") (auto simp: callAnilistStudio_def)

lemma catch_handler_not_run_step: "RequestFailed \<notin> set (console s) \<Longrightarrow> RequestFailed \<notin> set (console (step e s))"
proof (cases e)
  case (ToggleSettles i r)
  assume "RequestFailed \<notin> set (console s)"
  then show ?thesis using ToggleSettles
    by (cases r rule: callAnilistStudio_cases)
       (auto simp: console_settle_toggle_resolved log_all_def)
next
  case (CountSettles i r)
  assume a: "RequestFailed \<notin> set (console s)"
  show ?thesis using CountSettles a
    by (cases r rule: callAnilistStudio_cases)
       (auto simp: log_all_def dest!: console_settle_count)
qed (auto simp: handlers_eq console_after_handler console_advance console_unmount)

lemma catch_handler_not_run_run:
  "RequestFailed \<notin> set (console s) \<Longrightarrow> RequestFailed \<notin> set (console (run s es))"
proof (induction es arbitrary: s)
  case Nil
  then show ?case by simp
next
  case (Cons e es)
  from Cons.prems have "RequestFailed \<notin> set (console (step e s))"
    by (rule catch_handler_not_run_step)
  then have "RequestFailed \<notin> set (console (run (step e s) es))"
    by (rule Cons.IH)
  then show ?case by simp
qed

text \<open>
  C9. However the network answers, the promise of \<open>callAnilistStudio\<close> resolves to a
  boolean and never rejects. So the \<^verbatim>\<open>catch\<close> handler of the toggle effect, the one
  that logs \<open>RequestFailed\<close> whenever it runs, never runs in any execution of the
  component: that entry is on the console of no reachable state.
\<close>

theorem callAnilistStudio_never_rejects:
  "(\<exists>b. fst (callAnilistStudio r) = Resolved b)
   \<and> (\<forall>e. fst (callAnilistStudio r) \<noteq> Rejected e)
   \<and> RequestFailed \<notin> set (console (run init es))
   \<and> console (toggle_handlers q (Rejected e) s) = console s @ [RequestFailed]"
proof -
  have "RequestFailed \<notin> set (console init)"
    by (simp add: init_def mount_def App_initial_def console_effects)
  from catch_handler_not_run_run[OF this, of es] show ?thesis
    by (auto simp: callAnilistStudio_outcome toggle_handlers_def
          uiDispatch_def setIsSaving_def Let_def)
qed

theorem callAnilistStudio_never_rejects_witness:
  "fst (callAnilistStudio FetchRejects) = Resolved False
   \<and> console (run init [ClickToggle, ToggleSettles 0 FetchRejects]) = [NetworkOrParsingError]"
proof -
  have "console (run init [ClickToggle, ToggleSettles 0 FetchRejects]) = [NetworkOrParsingError]"
    by code_simp
  moreover have "fst (callAnilistStudio FetchRejects) = Resolved False" by code_simp
  ultimately show ?thesis
    using callAnilistStudio_never_rejects [of FetchRejects "[ClickToggle, ToggleSettles 0 FetchRejects]"]
    by simp
qed


section \<open>The debounced notification\<close>

lemma waiting_init: "waiting k init"
  by (simp add: waiting_def init_def mount_def App_initial_def toggle_effect_def count_effect_def initialUIState_def)

lemma waiting_cases:
  assumes "waiting k s"
  obtains (idle) "count s = 0" "timers s = []"
  | (armed) i where "count s \<noteq> 0" "count_cleanup s" "i \<noteq> 0" "countTimeoutRef s = Some i"
      "timers s = [\<lparr>tm_id = i, tm_due = now s + k, tm_count = count s\<rparr>]"
  using assms by (cases "count s = 0") (auto simp: waiting_def)

lemma waiting_common:
  assumes "waiting k s"
  shows "alive s" "\<not> disableButtons (uiState s)" "prevCountRef s = 0" "attempts s = []"
    "0 < next_timer s"
  using assms by (simp_all add: waiting_def)

lemma waiting_advance_idle:
  assumes "waiting k s" "count s = 0"
  shows "waiting k' (advance d s)"
proof -
  from assms have "timers s = []" by (simp add: waiting_def)
  with assms show ?thesis by (simp add: waiting_def advance_def Let_def)
qed

lemma waiting_advance:
  assumes w: "waiting k s" and d: "d < k"
  shows "waiting (k - d) (advance d s)"
  using w
proof (cases rule: waiting_cases)
  case idle
  with w show ?thesis by (simp add: waiting_def advance_def Let_def)
next
  case (armed i)
  with d have "advance d s = s\<lparr>now := now s + d\<rparr>"
    by (simp add: advance_def Let_def)
  with w armed d show ?thesis by (simp add: waiting_def)
qed

lemma waiting_click:
  assumes w: "waiting k s" and e: "counter_click e"
  shows "waiting debounce_delay (step e s)"
proof -
  note c = waiting_common[OF w]
  from e consider "e = ClickIncrement" | "e = ClickReset" by (auto simp: counter_click_def)
  then show ?thesis
  proof cases
    case 1
    from w show ?thesis
    proof (cases rule: waiting_cases)
      case idle
      with c 1 show ?thesis
        by (simp add: waiting_def after_handler_def handleIncrement_def setCount_def rerender_def
              Let_def count_effect_def count_effect_cleanup_def clearTimeout_def
              split: option.splits)
    next
      case (armed i)
      with c 1 show ?thesis
        by (simp add: waiting_def after_handler_def handleIncrement_def setCount_def rerender_def
              Let_def count_effect_def count_effect_cleanup_def clearTimeout_def)
    qed
  next
    case 2
    from w show ?thesis
    proof (cases rule: waiting_cases)
      case idle
      with c 2 show ?thesis
        by (simp add: waiting_def after_handler_def handleReset_def setCount_def rerender_def
              Let_def)
    next
      case (armed i)
      with c 2 show ?thesis
        by (simp add: waiting_def after_handler_def handleReset_def setCount_def rerender_def
              Let_def count_effect_def count_effect_cleanup_def clearTimeout_def)
    qed
  qed
qed

lemma waiting_fire:
  assumes w: "waiting k s" and d: "k \<le> d"
  shows "attempts (advance d s) = (if count s = 0 then [] else [CountAttempt (count s)])"
  using w
proof (cases rule: waiting_cases)
  case idle
  with waiting_common[OF w] show ?thesis by (simp add: advance_def Let_def)
next
  case (armed i)
  with waiting_common[OF w] d show ?thesis
    by (simp add: advance_def Let_def count_timer_callback_def setIsSaving_def)
qed

lemma waiting_quiet:
  assumes "waiting k s" "d < k"
  shows "attempts (advance d s) = []"
  using waiting_advance[OF assms] by (simp add: waiting_def)

lemma waiting_rapid:
  "waiting debounce_delay s \<Longrightarrow> rapid cs \<Longrightarrow> waiting debounce_delay (run s (debounce_events cs))"
proof (induction cs arbitrary: s)
  case Nil
  then show ?case by simp
next
  case (Cons c cs)
  obtain d e where c: "c = (d, e)" by (cases c)
  from Cons.prems(2) c have d: "d < debounce_delay" and e: "counter_click e" and r: "rapid cs"
    by (simp_all add: rapid_def)
  from waiting_advance[OF Cons.prems(1) d] have "waiting (debounce_delay - d) (advance d s)" .
  from waiting_click[OF this e] have "waiting debounce_delay (step e (advance d s))" by simp
  from Cons.IH[OF this r] show ?case by (simp add: c)
qed

text \<open>
  C1, as the code has it. After the first render, take any run of clicks on the
  increment and reset buttons in which each click comes less than 300 time units after
  the one before. No attempt is made during the run, nor while less than 300 units have
  passed since the last click. Once 300 units have passed, exactly one attempt has been
  made, for the final value of the counter, if that value differs from the one in
  \<^verbatim>\<open>prevCountRef\<close>; if it is equal, the guard of the effect has skipped it and no
  attempt is made.
\<close>

theorem debounced_single_attempt:
  assumes "counter_click e0" and "rapid cs"
  shows "attempts (run init (Advance d0 # e0 # debounce_events cs)) = []
    \<and> (d < debounce_delay \<longrightarrow>
         attempts (step (Advance d) (run init (Advance d0 # e0 # debounce_events cs))) = [])
    \<and> (debounce_delay \<le> d \<longrightarrow>
         attempts (step (Advance d) (run init (Advance d0 # e0 # debounce_events cs)))
           = (if count (run init (Advance d0 # e0 # debounce_events cs))
                   = prevCountRef (run init (Advance d0 # e0 # debounce_events cs)) then []
              else [CountAttempt (count (run init (Advance d0 # e0 # debounce_events cs)))]))"
proof -
  let ?s = "run init (Advance d0 # e0 # debounce_events cs)"
  have "count init = 0" by (simp add: init_def mount_def App_initial_def toggle_effect_def count_effect_def)
  from waiting_advance_idle[OF waiting_init this] have "waiting 1 (advance d0 init)" .
  from waiting_click[OF this assms(1)] have "waiting debounce_delay (step e0 (advance d0 init))" by simp
  from waiting_rapid[OF this assms(2)] have w: "waiting debounce_delay ?s" by simp
  show ?thesis using waiting_common[OF w] waiting_fire[OF w, of d] waiting_quiet[OF w, of d]
    by simp
qed

theorem debounced_single_attempt_witness:
  "attempts (step (Advance 300)
      (run init (Advance 0 # ClickIncrement #
         debounce_events [(100, ClickIncrement), (100, ClickIncrement)])))
     = [CountAttempt 3]
   \<and> attempts (step (Advance 299)
      (run init (Advance 0 # ClickIncrement #
         debounce_events [(100, ClickIncrement), (100, ClickIncrement)])))
     = []"
proof -
  have r: "rapid [(100, ClickIncrement), (100, ClickIncrement)]" "counter_click ClickIncrement"
    by (simp_all add: rapid_def counter_click_def debounce_delay_def)
  have c: "count (run init (Advance 0 # ClickIncrement #
         debounce_events [(100, ClickIncrement), (100, ClickIncrement)])) = 3"
    "prevCountRef (run init (Advance 0 # ClickIncrement #
         debounce_events [(100, ClickIncrement), (100, ClickIncrement)])) = 0"
    by code_simp+
  show ?thesis
    using debounced_single_attempt [OF r(2) r(1), of 0 300] debounced_single_attempt [OF r(2) r(1), of 0 299] c
    by (simp add: debounce_delay_def)
qed

text \<open>
  C1 as it is stated fails: increment, then reset within the quiet period. The final
  value 0 is the one \<^verbatim>\<open>prevCountRef\<close> holds, and no attempt is made for it.
\<close>

theorem debounced_reset_counterexample:
  "\<not> (attempts (step (Advance 300)
         (run init (Advance 0 # ClickIncrement # debounce_events [(100, ClickReset)])))
       = [CountAttempt (count (run init (Advance 0 # ClickIncrement # debounce_events [(100, ClickReset)])))])"
  by code_simp


section \<open>Late results\<close>


lemma find_fresh:
  "\<forall>q\<in>set xs. t_id q \<noteq> i \<Longrightarrow> t_id x = i \<Longrightarrow>
     find (\<lambda>q. t_id q = i) (map (\<lambda>q. if t_id q = j then q\<lparr>t_mounted := False\<rparr> else q) xs @ [x]) = Some x"
  by (induction xs) auto

lemma find_fresh_plain:
  "\<forall>q\<in>set xs. t_id q \<noteq> i \<Longrightarrow> t_id x = i \<Longrightarrow>
     find (\<lambda>q. t_id q = i) (xs @ [x]) = Some x"
  by (induction xs) auto

lemma filter_fresh:
  "\<forall>q\<in>set xs. t_id q \<noteq> i \<Longrightarrow> filter (\<lambda>q. t_id q \<noteq> i) xs = xs"
  by (induction xs) auto

lemma toggle_click_issues:
  assumes "alive s" "prevDisableRef s = disableButtons (uiState s)"
  shows "toggle_inflight (step ClickToggle s) =
           (case toggle_cleanup s of None \<Rightarrow> toggle_inflight s
            | Some j \<Rightarrow> map (\<lambda>q. if t_id q = j then q\<lparr>t_mounted := False\<rparr> else q) (toggle_inflight s))
           @ [\<lparr>t_id = next_req s, t_mounted = True, t_captured = \<not> disableButtons (uiState s)\<rparr>]"
    and "uiState (step ClickToggle s) = \<lparr>disableButtons = \<not> disableButtons (uiState s)\<rparr>"
    and "prevDisableRef (step ClickToggle s) = disableButtons (uiState s)"
    and "alive (step ClickToggle s)"
    and "count (step ClickToggle s) = count s"
  using assms
  by (auto simp: after_handler_def toggleDisabled_def uiDispatch_def rerender_def Let_def
        toggle_effect_def toggle_effect_cleanup_def setIsSaving_def split: option.splits)

lemma uiState_rerender: "uiState (rerender ob oc s) = uiState s"
  by (simp add: rerender_def Let_def toggle_effect_def toggle_effect_cleanup_def count_effect_def
        count_effect_cleanup_def clearTimeout_def setIsSaving_def split: option.splits)

text \<open>
  When nothing happens between a click on the toggle button and the settling of the
  request it started, the flag ends at its value before the click if the request failed,
  and at its value after the click if it succeeded.
\<close>

lemma toggle_rollback_when_undisturbed:
  assumes a: "alive s" and p: "prevDisableRef s = disableButtons (uiState s)"
    and fresh: "\<forall>q\<in>set (toggle_inflight s). t_id q \<noteq> next_req s"
  shows "disableButtons (uiState (settle_toggle (next_req s) (Resolved success) (step ClickToggle s)))
           = (if success then \<not> disableButtons (uiState s) else disableButtons (uiState s))"
proof -
  let ?s1 = "step ClickToggle s"
  let ?q = "\<lparr>t_id = next_req s, t_mounted = True, t_captured = \<not> disableButtons (uiState s)\<rparr>"
  note c = toggle_click_issues[OF a p]
  have f: "find (\<lambda>q. t_id q = next_req s) (toggle_inflight ?s1) = Some ?q"
    unfolding c(1) using fresh
    by (cases "toggle_cleanup s") (simp_all add: find_fresh find_fresh_plain)
  show ?thesis
    unfolding settle_toggle_def f
    by (simp add: uiState_rerender toggle_handlers_def uiDispatch_def
          setIsSaving_def Let_def c(2-5) del: step.simps)
qed

text \<open>
  C2 does not hold on every execution. Three clicks on the toggle button while the
  request of the first is in flight: the second click finds the ref equal to the flag and
  starts nothing, the third starts request 1 with the flag going from \<^verbatim>\<open>false\<close> to
  \<^verbatim>\<open>true\<close>. Request 0 settles: its \<^verbatim>\<open>finally\<close> handler, torn down as it is, still
  writes \<^verbatim>\<open>prevDisableRef.current = true\<close>. Request 1 then fails and rolls back to that
  ref: the flag stays \<^verbatim>\<open>true\<close>, its value after the toggle, not the one before.
\<close>

theorem toggle_rollback_lost:
  "disableButtons (uiState (run init [ClickToggle, ClickToggle])) = False
   \<and> attempts (run init [ClickToggle, ClickToggle, ClickToggle])
       = attempts (run init [ClickToggle, ClickToggle]) @ [ToggleAttempt True]
   \<and> toggle_inflight (run init [ClickToggle, ClickToggle, ClickToggle])
       = [\<lparr>t_id = 0, t_mounted = False, t_captured = True\<rparr>,
          \<lparr>t_id = 1, t_mounted = True, t_captured = True\<rparr>]
   \<and> fst (callAnilistStudio (Response False JsonRejects)) = Resolved False
   \<and> toggle_inflight (run init [ClickToggle, ClickToggle, ClickToggle,
         ToggleSettles 0 (Response False JsonRejects),
         ToggleSettles 1 (Response False JsonRejects)]) = []
   \<and> disableButtons (uiState (run init [ClickToggle, ClickToggle, ClickToggle,
         ToggleSettles 0 (Response False JsonRejects),
         ToggleSettles 1 (Response False JsonRejects)])) = True"
  by code_simp

text \<open>After teardown a promise that resolves changes no state of the component.\<close>

lemma toggle_handlers_resolved_after_teardown:
  "\<not> t_mounted q \<Longrightarrow>
     uiState (toggle_handlers q (Resolved b) s) = uiState s
     \<and> isSaving (toggle_handlers q (Resolved b) s) = isSaving s
     \<and> count (toggle_handlers q (Resolved b) s) = count s"
  by (simp add: toggle_handlers_def Let_def)

lemma ocm_irrelevant [simp]:
  "only_current_mounted (s\<lparr>uiState := u\<rparr>) = only_current_mounted s"
  "only_current_mounted (s\<lparr>isSaving := v\<rparr>) = only_current_mounted s"
  "only_current_mounted (s\<lparr>console := l\<rparr>) = only_current_mounted s"
  "only_current_mounted (s\<lparr>prevDisableRef := b\<rparr>) = only_current_mounted s"
  "only_current_mounted (s\<lparr>prevCountRef := c\<rparr>) = only_current_mounted s"
  "only_current_mounted (s\<lparr>count_inflight := cq\<rparr>) = only_current_mounted s"
  "only_current_mounted (s\<lparr>count := n\<rparr>) = only_current_mounted s"
  "only_current_mounted (s\<lparr>alive := a\<rparr>) = only_current_mounted s"
  "only_current_mounted (s\<lparr>now := t\<rparr>) = only_current_mounted s"
  "only_current_mounted (s\<lparr>timers := ts\<rparr>) = only_current_mounted s"
  by (simp_all add: only_current_mounted_def)

lemma toggle_effect_cleanup_unmounts:
  assumes "only_current_mounted s"
  shows "toggle_inflight (toggle_effect_cleanup s)
           = map (\<lambda>q. q\<lparr>t_mounted := False\<rparr>) (toggle_inflight s)"
proof (cases "toggle_cleanup s")
  case None
  with assms have "\<forall>q\<in>set (toggle_inflight s). \<not> t_mounted q"
    by (auto simp: only_current_mounted_def)
  then have "map (\<lambda>q. q\<lparr>t_mounted := False\<rparr>) (toggle_inflight s) = toggle_inflight s"
    by (induction "toggle_inflight s") (auto simp: map_idI)
  with None show ?thesis by (simp add: toggle_effect_cleanup_def)
next
  case (Some i)
  with assms have "\<forall>q\<in>set (toggle_inflight s). t_mounted q \<longrightarrow> t_id q = i"
    by (auto simp: only_current_mounted_def)
  then have "map (\<lambda>q. if t_id q = i then q\<lparr>t_mounted := False\<rparr> else q) (toggle_inflight s)
           = map (\<lambda>q. q\<lparr>t_mounted := False\<rparr>) (toggle_inflight s)"
    by (intro map_cong) auto
  with Some show ?thesis by (simp add: toggle_effect_cleanup_def)
qed

lemma ocm_toggle_effect_cleanup:
  "only_current_mounted s \<Longrightarrow> only_current_mounted (toggle_effect_cleanup s)"
  by (simp add: only_current_mounted_def toggle_effect_cleanup_unmounts[unfolded only_current_mounted_def])

lemma all_unmounted_after_cleanup:
  "only_current_mounted s \<Longrightarrow> \<forall>q\<in>set (toggle_inflight (toggle_effect_cleanup s)). \<not> t_mounted q"
  by (simp add: toggle_effect_cleanup_unmounts)

lemma ocm_toggle_effect:
  "\<forall>q\<in>set (toggle_inflight s). \<not> t_mounted q \<Longrightarrow> only_current_mounted (toggle_effect s)"
  by (auto simp: only_current_mounted_def toggle_effect_def setIsSaving_def Let_def)

lemma count_effect_toggle_fields:
  "toggle_inflight (count_effect s) = toggle_inflight s"
  "toggle_cleanup (count_effect s) = toggle_cleanup s"
  "toggle_inflight (count_effect_cleanup s) = toggle_inflight s"
  "toggle_cleanup (count_effect_cleanup s) = toggle_cleanup s"
  by (simp_all add: count_effect_def count_effect_cleanup_def clearTimeout_def Let_def
        split: option.splits)

lemma ocm_count_effect:
  "only_current_mounted (count_effect s) = only_current_mounted s"
  "only_current_mounted (count_effect_cleanup s) = only_current_mounted s"
  by (simp_all add: only_current_mounted_def count_effect_toggle_fields)

lemma ocm_rerender: "only_current_mounted s \<Longrightarrow> only_current_mounted (rerender ob oc s)"
proof -
  assume a: "only_current_mounted s"
  have t: "only_current_mounted (toggle_effect (count_effect_cleanup (toggle_effect_cleanup s)))"
    "only_current_mounted (toggle_effect (toggle_effect_cleanup s))"
    using all_unmounted_after_cleanup[OF a]
    by (auto intro!: ocm_toggle_effect simp: count_effect_toggle_fields)
  show ?thesis using a t
    by (simp add: rerender_def Let_def ocm_count_effect)
qed


lemma ocm_fold_callback:
  "only_current_mounted (fold (\<lambda>x. count_timer_callback (tm_count x)) xs s) = only_current_mounted s"
proof -
  have "toggle_inflight (fold (\<lambda>x. count_timer_callback (tm_count x)) xs s) = toggle_inflight s
      \<and> toggle_cleanup (fold (\<lambda>x. count_timer_callback (tm_count x)) xs s) = toggle_cleanup s"
    by (induction xs arbitrary: s) (simp_all add: count_timer_callback_def setIsSaving_def Let_def)
  then show ?thesis by (simp add: only_current_mounted_def)
qed

lemma ocm_advance: "only_current_mounted s \<Longrightarrow> only_current_mounted (advance d s)"
  by (simp add: advance_def Let_def ocm_fold_callback)

lemma ocm_handlers:
  "only_current_mounted (toggle_handlers q outcome s) = only_current_mounted s"
  "only_current_mounted (count_handlers cq outcome s) = only_current_mounted s"
  by (auto simp: toggle_handlers_def count_handlers_def uiDispatch_def setIsSaving_def Let_def
        split: promise_outcome.splits)

lemma ocm_filter:
  "only_current_mounted s \<Longrightarrow>
     only_current_mounted (s\<lparr>toggle_inflight := filter P (toggle_inflight s)\<rparr>)"
  by (simp add: only_current_mounted_def)

lemma ocm_settle_toggle:
  "only_current_mounted s \<Longrightarrow> only_current_mounted (settle_toggle i outcome s)"
  by (auto simp: settle_toggle_def ocm_handlers split: option.splits
        intro!: ocm_rerender ocm_filter)

lemma ocm_settle_count:
  "only_current_mounted s \<Longrightarrow> only_current_mounted (settle_count i outcome s)"
  by (auto simp: settle_count_def ocm_handlers split: option.splits intro!: ocm_rerender)

lemma ocm_unmount: "only_current_mounted s \<Longrightarrow> only_current_mounted (unmount s)"
  by (simp add: unmount_def ocm_count_effect ocm_toggle_effect_cleanup)

lemma ocm_after_handler:
  "only_current_mounted s \<Longrightarrow> only_current_mounted (after_handler (setCount f) s)"
  "only_current_mounted s \<Longrightarrow> only_current_mounted (after_handler (uiDispatch a) s)"
  by (auto simp: after_handler_def setCount_def uiDispatch_def intro!: ocm_rerender)

lemma ocm_step: "only_current_mounted s \<Longrightarrow> only_current_mounted (step e s)"
  by (cases e)
     (auto simp: handlers_eq log_all_def
           intro: ocm_after_handler ocm_advance ocm_settle_toggle ocm_settle_count ocm_unmount
           split: prod.splits)

lemma ocm_run: "only_current_mounted s \<Longrightarrow> only_current_mounted (run s es)"
  by (induction es arbitrary: s) (auto intro: ocm_step)

lemma ocm_init: "only_current_mounted init"
  by (simp add: only_current_mounted_def init_def mount_def App_initial_def toggle_effect_def
        count_effect_def initialUIState_def)

lemma unmount_tears_down:
  assumes "only_current_mounted s" "alive s"
  shows "toggle_inflight (unmount s) = map (\<lambda>q. q\<lparr>t_mounted := False\<rparr>) (toggle_inflight s)"
  using assms
  by (simp add: unmount_def count_effect_toggle_fields toggle_effect_cleanup_unmounts)

lemma toggle_effect_inflight_prefix:
  "take (length (toggle_inflight s)) (toggle_inflight (toggle_effect s)) = toggle_inflight s"
  by (simp add: toggle_effect_def setIsSaving_def Let_def)

lemma toggle_click_tears_down:
  assumes inv: "only_current_mounted s" and a: "alive s"
  shows "take (length (toggle_inflight s)) (toggle_inflight (after_handler toggleDisabled s))
           = map (\<lambda>q. q\<lparr>t_mounted := False\<rparr>) (toggle_inflight s)"
proof -
  let ?s0 = "s\<lparr>uiState := uiReducer (uiState s) TOGGLE_DISABLE\<rparr>"
  have eq: "after_handler toggleDisabled s = toggle_effect (toggle_effect_cleanup ?s0)"
    using a by (simp add: after_handler_def toggleDisabled_def uiDispatch_def rerender_def Let_def)
  have inv0: "only_current_mounted ?s0" using inv by simp
  have c: "toggle_inflight (toggle_effect_cleanup ?s0)
             = map (\<lambda>q. q\<lparr>t_mounted := False\<rparr>) (toggle_inflight s)"
    using toggle_effect_cleanup_unmounts[OF inv0] by simp
  from toggle_effect_inflight_prefix[of "toggle_effect_cleanup ?s0"]
  show ?thesis unfolding eq c by simp
qed

lemma late_toggle_result_discarded:
  assumes f: "find (\<lambda>q. t_id q = i) (toggle_inflight s) = Some q" and m: "\<not> t_mounted q"
  shows "uiState (step (ToggleSettles i r) s) = uiState s
     \<and> isSaving (step (ToggleSettles i r) s) = isSaving s
     \<and> count (step (ToggleSettles i r) s) = count s
     \<and> attempts (step (ToggleSettles i r) s) = attempts s
     \<and> timers (step (ToggleSettles i r) s) = timers s"
proof -
  obtain b ls where c: "callAnilistStudio r = (Resolved b, ls)"
    by (cases r rule: callAnilistStudio_cases) auto
  let ?s1 = "s\<lparr>console := console s @ ls,
                 toggle_inflight := filter (\<lambda>x. t_id x \<noteq> i) (toggle_inflight s)\<rparr>"
  let ?s2 = "toggle_handlers q (Resolved b) ?s1"
  have h: "?s2 = ?s1\<lparr>prevDisableRef := t_captured q\<rparr>"
    using m by (simp add: toggle_handlers_def Let_def)
  have st: "step (ToggleSettles i r) s
              = rerender (disableButtons (uiState s)) (count s) ?s2"
    using c f by (simp add: settle_toggle_def log_all_def)
  have u: "disableButtons (uiState s) = disableButtons (uiState ?s2)" "count s = count ?s2"
    unfolding h by simp_all
  have "rerender (disableButtons (uiState s)) (count s) ?s2 = ?s2"
    unfolding u by (rule rerender_same)
  with st have "step (ToggleSettles i r) s = ?s2" by simp
  then show ?thesis unfolding h by simp
qed

text \<open>
  C3. Tearing the toggle effect down, by unmounting or by a click that changes the flag,
  clears \<^verbatim>\<open>mounted\<close> for every toggle request that is in flight at that moment, in
  every state the component can reach. And when a request whose \<^verbatim>\<open>mounted\<close> is cleared
  settles, whatever the network answered (a failure response as well as a rejected
  \<^verbatim>\<open>fetch\<close> or body, which \<open>callAnilistStudio\<close> turns into \<^verbatim>\<open>false\<close>), the flag
  \<open>disableButtons\<close>, \<open>isSaving\<close>, the counter, the attempts and the timers are what
  they were before.
\<close>

theorem late_toggle_result_never_mutates:
  "(alive (run init es) \<longrightarrow>
      toggle_inflight (step Unmount (run init es))
        = map (\<lambda>q. q\<lparr>t_mounted := False\<rparr>) (toggle_inflight (run init es))
      \<and> take (length (toggle_inflight (run init es)))
             (toggle_inflight (step ClickToggle (run init es)))
        = map (\<lambda>q. q\<lparr>t_mounted := False\<rparr>) (toggle_inflight (run init es)))
   \<and> (find (\<lambda>q. t_id q = i) (toggle_inflight s) = Some q \<and> \<not> t_mounted q \<longrightarrow>
        uiState (step (ToggleSettles i r) s) = uiState s
        \<and> isSaving (step (ToggleSettles i r) s) = isSaving s
        \<and> count (step (ToggleSettles i r) s) = count s
        \<and> attempts (step (ToggleSettles i r) s) = attempts s
        \<and> timers (step (ToggleSettles i r) s) = timers s)"
proof -
  have inv: "only_current_mounted (run init es)" by (rule ocm_run[OF ocm_init])
  have a: "alive (run init es) \<longrightarrow>
      toggle_inflight (step Unmount (run init es))
        = map (\<lambda>q. q\<lparr>t_mounted := False\<rparr>) (toggle_inflight (run init es))
      \<and> take (length (toggle_inflight (run init es)))
             (toggle_inflight (step ClickToggle (run init es)))
        = map (\<lambda>q. q\<lparr>t_mounted := False\<rparr>) (toggle_inflight (run init es))"
    using unmount_tears_down[OF inv] toggle_click_tears_down[OF inv] by simp
  have b: "find (\<lambda>q. t_id q = i) (toggle_inflight s) = Some q \<and> \<not> t_mounted q \<longrightarrow>
        uiState (step (ToggleSettles i r) s) = uiState s
        \<and> isSaving (step (ToggleSettles i r) s) = isSaving s
        \<and> count (step (ToggleSettles i r) s) = count s
        \<and> attempts (step (ToggleSettles i r) s) = attempts s
        \<and> timers (step (ToggleSettles i r) s) = timers s"
    using late_toggle_result_discarded[of i s q r] by blast
  from a b show ?thesis by (rule conjI)
qed

theorem late_toggle_result_never_mutates_witness:
  "toggle_inflight (step Unmount (run init [ClickToggle]))
     = [\<lparr>t_id = 0, t_mounted = False, t_captured = True\<rparr>]
   \<and> toggle_inflight (step ClickToggle (run init [ClickToggle]))
     = [\<lparr>t_id = 0, t_mounted = False, t_captured = True\<rparr>]
   \<and> uiState (step (ToggleSettles 0 FetchRejects) (run init [ClickToggle, Unmount]))
       = uiState (run init [ClickToggle, Unmount])
   \<and> isSaving (step (ToggleSettles 0 (Response False JsonRejects)) (run init [ClickToggle, ClickToggle]))
       = isSaving (run init [ClickToggle, ClickToggle])
   \<and> disableButtons (uiState (step (ToggleSettles 0 (Response False JsonRejects))
        (run init [ClickToggle, ClickToggle])))
       = disableButtons (uiState (run init [ClickToggle, ClickToggle]))"
proof -
  have al: "alive (run init [ClickToggle])" by code_simp
  have fl: "toggle_inflight (run init [ClickToggle])
              = [\<lparr>t_id = 0, t_mounted = True, t_captured = True\<rparr>]" by code_simp
  have t2: "toggle_inflight (step ClickToggle (run init [ClickToggle]))
     = [\<lparr>t_id = 0, t_mounted = False, t_captured = True\<rparr>]" by code_simp
  have f1: "find (\<lambda>q. t_id q = 0) (toggle_inflight (run init [ClickToggle, Unmount]))
              = Some \<lparr>t_id = 0, t_mounted = False, t_captured = True\<rparr>" by code_simp
  have f2: "find (\<lambda>q. t_id q = 0) (toggle_inflight (run init [ClickToggle, ClickToggle]))
              = Some \<lparr>t_id = 0, t_mounted = False, t_captured = True\<rparr>" by code_simp
  from late_toggle_result_never_mutates
         [of "[ClickToggle]" 0 "run init [ClickToggle, Unmount]"
             "\<lparr>t_id = 0, t_mounted = False, t_captured = True\<rparr>" FetchRejects]
       late_toggle_result_never_mutates
         [of "[ClickToggle]" 0 "run init [ClickToggle, ClickToggle]"
             "\<lparr>t_id = 0, t_mounted = False, t_captured = True\<rparr>" "Response False JsonRejects"]
       al fl t2 f1 f2
  show ?thesis by (simp del: step.simps run.simps)
qed

text \<open>
  The \<^verbatim>\<open>catch\<close> handler itself dispatches \<open>SET_DISABLE\<close> without looking at
  \<^verbatim>\<open>mounted\<close>: handed a rejected promise for a request that was torn down, the handlers
  would change the flag. No execution of the component gets there, since the promise of
  \<open>callAnilistStudio\<close> never rejects.
\<close>

lemma toggle_catch_handler_unguarded:
  "find (\<lambda>q. t_id q = 0) (toggle_inflight (run init [ClickToggle, ClickToggle, ClickToggle]))
     = Some \<lparr>t_id = 0, t_mounted = False, t_captured = True\<rparr>
   \<and> disableButtons (uiState (run init [ClickToggle, ClickToggle, ClickToggle])) = True
   \<and> disableButtons (uiState (toggle_handlers \<lparr>t_id = 0, t_mounted = False, t_captured = True\<rparr>
        (Rejected NetworkError) (run init [ClickToggle, ClickToggle, ClickToggle]))) = False"
  by code_simp

text \<open>
  C4 fails for a request in flight: the \<^verbatim>\<open>mounted\<close> of the timer callback is never
  cleared. The counter goes to 1, the timer fires and starts request 0, the counter goes
  to 2 (the pending timer is replaced, as it should be); request 0 still has
  \<^verbatim>\<open>mounted\<close> true, and when it settles its \<^verbatim>\<open>finally\<close> handler clears \<open>isSaving\<close>
  and writes the superseded value 1 to \<^verbatim>\<open>prevCountRef\<close>.
\<close>

theorem stale_counter_result_clears_isSaving:
  "count (run init [ClickIncrement, Advance 300, ClickIncrement]) = 2
   \<and> count_inflight (run init [ClickIncrement, Advance 300, ClickIncrement])
       = [\<lparr>c_id = 0, c_mounted = True, c_captured = 1\<rparr>]
   \<and> timers (run init [ClickIncrement, Advance 300, ClickIncrement])
       = [\<lparr>tm_id = 2, tm_due = 600, tm_count = 2\<rparr>]
   \<and> isSaving (run init [ClickIncrement, Advance 300, ClickIncrement]) = True
   \<and> isSaving (run init [ClickIncrement, Advance 300, ClickIncrement,
        CountSettles 0 (Response True (JsonParsed studio_response))]) = False
   \<and> prevCountRef (run init [ClickIncrement, Advance 300, ClickIncrement,
        CountSettles 0 (Response True (JsonParsed studio_response))]) = 1"
  by code_simp

end
